theory Spec2Isabelle
  imports Main "HOL-Library.Word"
begin

section \<open>The XFIFaucet contract\<close>

text \<open>
  A shallow embedding of \<^verbatim>\<open>contracts/XFIFaucet.sol\<close> (Solidity 0.8, so every
  \<^verbatim>\<open>+\<close>, \<^verbatim>\<open>-\<close> and \<^verbatim>\<open>++\<close> on \<^verbatim>\<open>uint256\<close> is checked and
  aborts with the arithmetic panic instead of wrapping).

  \<^item> \<^verbatim>\<open>uint256\<close> is \<open>256 word\<close>, \<^verbatim>\<open>address\<close> is \<open>160 word\<close>, a Solidity
    \<^verbatim>\<open>mapping(address => uint256)\<close> is a total function with default 0.
  \<^item> A function of the contract takes the world before the call and returns either the
    error it reverts with (\<open>Inl\<close>) or the events it emits and the world after it
    (\<open>Inr\<close>). The rollback of a reverted call is made explicit once, in \<open>transact\<close>.
  \<^item> The token behind \<^verbatim>\<open>IERC20\<close> is not part of the repository. Its state is a type
    parameter and its three entry points are passed in as a record of functions, so the
    general theorems hold for every token. A call into the token either reverts
    (\<open>None\<close>) or returns its boolean and the next token state. The token does not call
    back into the faucet.
\<close>

type_synonym uint256 = "256 word"
type_synonym address = "160 word"

datatype error =
    InsufficientFaucetBalance
  | CooldownActive uint256
  | DailyLimitExceeded uint256
  | InvalidAmount
  | InvalidAddress
  | TransferFailed
  | PausablePaused
  | PausableNotPaused
  | OwnableNotOwner
  | ReentrantCall
  | Panic
  | TokenReverted

datatype event =
    TokensRequested address uint256
  | FaucetConfigUpdated uint256 uint256 uint256
  | TokensWithdrawn address uint256
  | TokensDeposited address uint256
  | Paused address
  | Unpaused address

text \<open>
  The interface \<^verbatim>\<open>IERC20\<close> as the contract uses it. The second argument of
  \<open>transfer\<close> and of \<open>transferFrom\<close> is the \<^verbatim>\<open>msg.sender\<close> the token sees, which is
  the faucet itself.
\<close>

record 't IERC20 =
  balanceOf :: "'t \<Rightarrow> address \<Rightarrow> uint256"
  transfer :: "'t \<Rightarrow> address \<Rightarrow> address \<Rightarrow> uint256 \<Rightarrow> (bool \<times> 't) option"
  transferFrom :: "'t \<Rightarrow> address \<Rightarrow> address \<Rightarrow> address \<Rightarrow> uint256 \<Rightarrow> (bool \<times> 't) option"

text \<open>
  The storage of the contract (with the inherited \<^verbatim>\<open>Ownable\<close>, \<^verbatim>\<open>Pausable\<close> and
  \<^verbatim>\<open>ReentrancyGuard\<close> slots), its own address, the state of the token contract and
  \<^verbatim>\<open>block.timestamp\<close>.
\<close>

record 't world =
  self_address :: address
  owner :: address
  paused :: bool
  entered :: bool
  xfiToken :: address
  tokensPerRequest :: uint256
  cooldownTime :: uint256
  maxTokensPerDay :: uint256
  minTokenBalance :: uint256
  nextRequestTime :: "address \<Rightarrow> uint256"
  dailyRequested :: "address \<Rightarrow> uint256"
  lastRequestDay :: "address \<Rightarrow> uint256"
  totalRequests :: uint256
  totalTokensDistributed :: uint256
  token :: 't
  timestamp :: uint256

subsection \<open>Checked arithmetic and sequencing\<close>

text \<open>The sum of two \<^verbatim>\<open>uint256\<close> values does not fit in 256 bits.\<close>

definition overflows :: "uint256 \<Rightarrow> uint256 \<Rightarrow> bool" where
  "overflows a b = (2 ^ 256 \<le> unat a + unat b)"

definition checked_add :: "uint256 \<Rightarrow> uint256 \<Rightarrow> error + uint256" where
  "checked_add a b = (if overflows a b then Inl Panic else Inr (a + b))"

definition checked_sub :: "uint256 \<Rightarrow> uint256 \<Rightarrow> error + uint256" where
  "checked_sub a b = (if b \<le> a then Inr (a - b) else Inl Panic)"

definition bindE :: "error + 'a \<Rightarrow> ('a \<Rightarrow> error + 'b) \<Rightarrow> error + 'b" where
  "bindE m f = (case m of Inl e \<Rightarrow> Inl e | Inr v \<Rightarrow> f v)"

text \<open>\<^verbatim>\<open>1 days\<close>\<close>

definition one_day :: uint256 where
  "one_day = 86400"

subsection \<open>Constructor\<close>

text \<open>
  \<open>constructor this sender tok now ...\<close>: deployment at address \<open>this\<close> by \<open>sender\<close>,
  while the token is in state \<open>tok\<close> and the block time is \<open>now\<close>. \<^verbatim>\<open>Ownable\<close> makes
  the deployer the owner, \<^verbatim>\<open>Pausable\<close> starts unpaused, the reentrancy lock starts
  free, and every other slot starts at zero.
\<close>

definition constructor ::
  "address \<Rightarrow> address \<Rightarrow> 't \<Rightarrow> uint256 \<Rightarrow> address \<Rightarrow> uint256 \<Rightarrow> uint256 \<Rightarrow> uint256
    \<Rightarrow> error + 't world" where
  "constructor this sender tok now xfiToken' tokensPerRequest' cooldownTime' maxTokensPerDay' =
    (if xfiToken' = 0 then Inl InvalidAddress
     else Inr \<lparr> self_address = this,
                owner = sender,
                paused = False,
                entered = False,
                xfiToken = xfiToken',
                tokensPerRequest = tokensPerRequest',
                cooldownTime = cooldownTime',
                maxTokensPerDay = maxTokensPerDay',
                minTokenBalance = tokensPerRequest',
                nextRequestTime = (\<lambda>_. 0),
                dailyRequested = (\<lambda>_. 0),
                lastRequestDay = (\<lambda>_. 0),
                totalRequests = 0,
                totalTokensDistributed = 0,
                token = tok,
                timestamp = now \<rparr>)"

subsection \<open>requestTokens\<close>

text \<open>
  \<^verbatim>\<open>function requestTokens() external nonReentrant whenNotPaused\<close>, with
  \<open>user = msg.sender\<close>. The modifiers run in the order written: the lock is tested and
  taken, then the pause flag is tested; the lock is released after the body.
\<close>

definition requestTokens ::
  "'t IERC20 \<Rightarrow> 't world \<Rightarrow> address \<Rightarrow> error + (event list \<times> 't world)" where
  "requestTokens tk w user =
    (if entered w then Inl ReentrantCall
     else
      let w0 = w\<lparr>entered := True\<rparr> in
      if paused w0 then Inl PausablePaused
      else
       let currentTime = timestamp w0;
           currentDay = currentTime div one_day in
       if currentTime < nextRequestTime w0 user
       then bindE (checked_sub (nextRequestTime w0 user) currentTime)
              (\<lambda>timeRemaining. Inl (CooldownActive timeRemaining))
       else
        let w1 = (if lastRequestDay w0 user < currentDay
                  then w0\<lparr>dailyRequested := (dailyRequested w0)(user := 0),
                          lastRequestDay := (lastRequestDay w0)(user := currentDay)\<rparr>
                  else w0) in
        bindE (checked_add (dailyRequested w1 user) (tokensPerRequest w1)) (\<lambda>wanted.
        if wanted > maxTokensPerDay w1
        then bindE (checked_sub (maxTokensPerDay w1) (dailyRequested w1 user))
               (\<lambda>currentLimit. Inl (DailyLimitExceeded currentLimit))
        else
         let faucetBalance = balanceOf tk (token w1) (self_address w1) in
         if faucetBalance < tokensPerRequest w1 then Inl InsufficientFaucetBalance
         else
          bindE (checked_add currentTime (cooldownTime w1)) (\<lambda>next.
          let w2 = w1\<lparr>nextRequestTime := (nextRequestTime w1)(user := next)\<rparr> in
          bindE (checked_add (dailyRequested w2 user) (tokensPerRequest w2)) (\<lambda>requested.
          let w3 = w2\<lparr>dailyRequested := (dailyRequested w2)(user := requested)\<rparr> in
          bindE (checked_add (totalRequests w3) 1) (\<lambda>requests.
          let w4 = w3\<lparr>totalRequests := requests\<rparr> in
          bindE (checked_add (totalTokensDistributed w4) (tokensPerRequest w4)) (\<lambda>distributed.
          let w5 = w4\<lparr>totalTokensDistributed := distributed\<rparr> in
          case transfer tk (token w5) (self_address w5) user (tokensPerRequest w5) of
            None \<Rightarrow> Inl TokenReverted
          | Some (success, tok') \<Rightarrow>
              if \<not> success then Inl TransferFailed
              else Inr ([TokensRequested user (tokensPerRequest w5)],
                        w5\<lparr>token := tok', entered := False\<rparr>)))))))"

subsection \<open>Views\<close>

definition getNextRequestTime :: "'t world \<Rightarrow> address \<Rightarrow> uint256" where
  "getNextRequestTime w user = nextRequestTime w user"

definition getRemainingCooldown :: "'t world \<Rightarrow> address \<Rightarrow> error + uint256" where
  "getRemainingCooldown w user =
    (let nextRequest = nextRequestTime w user in
     if nextRequest \<le> timestamp w then Inr 0
     else checked_sub nextRequest (timestamp w))"

definition getDailyUsage :: "'t world \<Rightarrow> address \<Rightarrow> error + (uint256 \<times> uint256)" where
  "getDailyUsage w user =
    (let currentDay = timestamp w div one_day;
         requested = (if lastRequestDay w user < currentDay then 0 else dailyRequested w user) in
     if maxTokensPerDay w > requested
     then bindE (checked_sub (maxTokensPerDay w) requested) (\<lambda>remaining. Inr (requested, remaining))
     else Inr (requested, 0))"

definition canUserRequest :: "'t IERC20 \<Rightarrow> 't world \<Rightarrow> address \<Rightarrow> error + (bool \<times> string)" where
  "canUserRequest tk w user =
    (if timestamp w < nextRequestTime w user then Inr (False, ''Cooldown active'')
     else
      let currentDay = timestamp w div one_day;
          dailyUsed = (if lastRequestDay w user < currentDay then 0 else dailyRequested w user) in
      bindE (checked_add dailyUsed (tokensPerRequest w)) (\<lambda>wanted.
      if wanted > maxTokensPerDay w then Inr (False, ''Daily limit exceeded'')
      else if balanceOf tk (token w) (self_address w) < tokensPerRequest w
      then Inr (False, ''Insufficient faucet balance'')
      else if paused w then Inr (False, ''Faucet is paused'')
      else Inr (True, '''')))"

definition getFaucetStats :: "'t IERC20 \<Rightarrow> 't world \<Rightarrow> uint256 \<times> uint256 \<times> uint256 \<times> uint256" where
  "getFaucetStats tk w =
    (balanceOf tk (token w) (self_address w),
     totalRequests w,
     totalTokensDistributed w,
     tokensPerRequest w)"

definition version :: string where
  "version = ''1.0.0''"

subsection \<open>Owner functions and deposits\<close>

definition updateFaucetConfig ::
  "'t world \<Rightarrow> address \<Rightarrow> uint256 \<Rightarrow> uint256 \<Rightarrow> uint256 \<Rightarrow> error + (event list \<times> 't world)" where
  "updateFaucetConfig w sender tokensPerRequest' cooldownTime' maxTokensPerDay' =
    (if sender \<noteq> owner w then Inl OwnableNotOwner
     else if tokensPerRequest' = 0 then Inl InvalidAmount
     else Inr ([FaucetConfigUpdated tokensPerRequest' cooldownTime' maxTokensPerDay'],
               w\<lparr>tokensPerRequest := tokensPerRequest',
                 cooldownTime := cooldownTime',
                 maxTokensPerDay := maxTokensPerDay',
                 minTokenBalance := tokensPerRequest'\<rparr>))"

definition withdrawTokens ::
  "'t IERC20 \<Rightarrow> 't world \<Rightarrow> address \<Rightarrow> uint256 \<Rightarrow> error + (event list \<times> 't world)" where
  "withdrawTokens tk w sender amount0 =
    (if sender \<noteq> owner w then Inl OwnableNotOwner
     else
      let faucetBalance = balanceOf tk (token w) (self_address w);
          amount = (if amount0 = 0 then faucetBalance else amount0) in
      if amount > faucetBalance then Inl InsufficientFaucetBalance
      else
       case transfer tk (token w) (self_address w) (owner w) amount of
         None \<Rightarrow> Inl TokenReverted
       | Some (success, tok') \<Rightarrow>
           if \<not> success then Inl TransferFailed
           else Inr ([TokensWithdrawn (owner w) amount], w\<lparr>token := tok'\<rparr>))"

definition depositTokens ::
  "'t IERC20 \<Rightarrow> 't world \<Rightarrow> address \<Rightarrow> uint256 \<Rightarrow> error + (event list \<times> 't world)" where
  "depositTokens tk w sender amount =
    (if amount = 0 then Inl InvalidAmount
     else
      case transferFrom tk (token w) (self_address w) sender (self_address w) amount of
        None \<Rightarrow> Inl TokenReverted
      | Some (success, tok') \<Rightarrow>
          if \<not> success then Inl TransferFailed
          else Inr ([TokensDeposited sender amount], w\<lparr>token := tok'\<rparr>))"

definition emergencyWithdraw ::
  "'t IERC20 \<Rightarrow> 't world \<Rightarrow> address \<Rightarrow> error + (event list \<times> 't world)" where
  "emergencyWithdraw tk w sender =
    (if sender \<noteq> owner w then Inl OwnableNotOwner
     else
      let balance = balanceOf tk (token w) (self_address w) in
      if balance > 0
      then (case transfer tk (token w) (self_address w) (owner w) balance of
              None \<Rightarrow> Inl TokenReverted
            | Some (success, tok') \<Rightarrow>
                if \<not> success then Inl TransferFailed
                else Inr ([TokensWithdrawn (owner w) balance], w\<lparr>token := tok'\<rparr>))
      else Inr ([], w))"

text \<open>
  \<^verbatim>\<open>pause\<close> and \<^verbatim>\<open>unpause\<close> call \<^verbatim>\<open>Pausable\<close>'s \<^verbatim>\<open>_pause\<close> (guarded by
  \<^verbatim>\<open>whenNotPaused\<close>) and \<^verbatim>\<open>_unpause\<close> (guarded by \<^verbatim>\<open>whenPaused\<close>).
\<close>

definition pause :: "'t world \<Rightarrow> address \<Rightarrow> error + (event list \<times> 't world)" where
  "pause w sender =
    (if sender \<noteq> owner w then Inl OwnableNotOwner
     else if paused w then Inl PausablePaused
     else Inr ([Paused sender], w\<lparr>paused := True\<rparr>))"

definition unpause :: "'t world \<Rightarrow> address \<Rightarrow> error + (event list \<times> 't world)" where
  "unpause w sender =
    (if sender \<noteq> owner w then Inl OwnableNotOwner
     else if \<not> paused w then Inl PausableNotPaused
     else Inr ([Unpaused sender], w\<lparr>paused := False\<rparr>))"

definition resetUserCooldown ::
  "'t world \<Rightarrow> address \<Rightarrow> address \<Rightarrow> error + (event list \<times> 't world)" where
  "resetUserCooldown w sender user =
    (if sender \<noteq> owner w then Inl OwnableNotOwner
     else Inr ([], w\<lparr>nextRequestTime := (nextRequestTime w)(user := 0)\<rparr>))"

subsection \<open>Transactions and runs\<close>

text \<open>
  A transaction either commits, with its events, or reverts: then the world is the one
  before the call.
\<close>

datatype outcome = Success "event list" | Reverted error

definition transact ::
  "('t world \<Rightarrow> error + (event list \<times> 't world)) \<Rightarrow> 't world \<Rightarrow> outcome \<times> 't world" where
  "transact f w = (case f w of Inl e \<Rightarrow> (Reverted e, w) | Inr (evs, w') \<Rightarrow> (Success evs, w'))"

datatype call =
    RequestTokens
  | UpdateFaucetConfig uint256 uint256 uint256
  | WithdrawTokens uint256
  | DepositTokens uint256
  | EmergencyWithdraw
  | Pause
  | Unpause
  | ResetUserCooldown address

fun dispatch :: "'t IERC20 \<Rightarrow> address \<Rightarrow> call \<Rightarrow> 't world \<Rightarrow> error + (event list \<times> 't world)" where
  "dispatch tk sender RequestTokens w = requestTokens tk w sender"
| "dispatch tk sender (UpdateFaucetConfig a b c) w = updateFaucetConfig w sender a b c"
| "dispatch tk sender (WithdrawTokens amount) w = withdrawTokens tk w sender amount"
| "dispatch tk sender (DepositTokens amount) w = depositTokens tk w sender amount"
| "dispatch tk sender EmergencyWithdraw w = emergencyWithdraw tk w sender"
| "dispatch tk sender Pause w = pause w sender"
| "dispatch tk sender Unpause w = unpause w sender"
| "dispatch tk sender (ResetUserCooldown user) w = resetUserCooldown w sender user"

text \<open>
  What can happen between two observations of the contract: somebody sends it a
  transaction, the block time moves forward (never backward), or the token contract
  changes state on its own account (other holders move their tokens).
\<close>

datatype 't step = Tx address call | Tick uint256 | TokenMoves 't

fun do_step :: "'t IERC20 \<Rightarrow> 't world \<Rightarrow> 't step \<Rightarrow> outcome \<times> 't world" where
  "do_step tk w (Tx sender c) = transact (dispatch tk sender c) w"
| "do_step tk w (Tick now) = (Success [], if timestamp w \<le> now then w\<lparr>timestamp := now\<rparr> else w)"
| "do_step tk w (TokenMoves tok') = (Success [], w\<lparr>token := tok'\<rparr>)"

text \<open>A run returns the final world and the outcomes of its steps, oldest first.\<close>

fun run :: "'t IERC20 \<Rightarrow> 't world \<Rightarrow> 't step list \<Rightarrow> 't world \<times> outcome list" where
  "run tk w [] = (w, [])"
| "run tk w (st # sts) =
    (let (out, w') = do_step tk w st;
         (w'', outs) = run tk w' sts
     in (w'', out # outs))"

subsection \<open>A stand-in token\<close>

text \<open>
  Modelled from the spec: the external value-ledger of the token pool dependency
  (\<^verbatim>\<open>balanceOf(address) -> amount\<close>, \<^verbatim>\<open>transfer(to, amount) -> success\<close>,
  \<^verbatim>\<open>transferFrom(from, to, amount) -> success\<close>), of which the repository holds only
  the imported interface. A transfer moves the amount when the sender holds it (and, for
  \<open>transferFrom\<close>, the spender is authorised for it) and otherwise returns failure; a
  frozen ledger rejects every transfer. It is used for the concrete scenarios only.
\<close>

record std_token =
  balances :: "address \<Rightarrow> uint256"
  allowance :: "address \<Rightarrow> address \<Rightarrow> uint256"
  frozen :: bool

definition std_transfer ::
  "std_token \<Rightarrow> address \<Rightarrow> address \<Rightarrow> uint256 \<Rightarrow> (bool \<times> std_token) option" where
  "std_transfer t sender to amount =
    (if frozen t \<or> balances t sender < amount then Some (False, t)
     else
      let b1 = (balances t)(sender := balances t sender - amount);
          b2 = b1(to := b1 to + amount)
      in Some (True, t\<lparr>balances := b2\<rparr>))"

definition std_transferFrom ::
  "std_token \<Rightarrow> address \<Rightarrow> address \<Rightarrow> address \<Rightarrow> uint256 \<Rightarrow> (bool \<times> std_token) option" where
  "std_transferFrom t spender from to amount =
    (if frozen t \<or> allowance t from spender < amount \<or> balances t from < amount
     then Some (False, t)
     else
      let a1 = (allowance t)(from := (allowance t from)(spender := allowance t from spender - amount));
          b1 = (balances t)(from := balances t from - amount);
          b2 = b1(to := b1 to + amount)
      in Some (True, t\<lparr>balances := b2, allowance := a1\<rparr>))"

definition std_erc20 :: "std_token IERC20" where
  "std_erc20 =
    \<lparr> balanceOf = balances, transfer = std_transfer, transferFrom = std_transferFrom \<rparr>"

text \<open>The ledger in which \<open>holder\<close> has \<open>n\<close> tokens and nobody else has any.\<close>

definition pool_of :: "uint256 \<Rightarrow> address \<Rightarrow> std_token" where
  "pool_of n holder =
    \<lparr> balances = (\<lambda>_. 0)(holder := n), allowance = (\<lambda>_ _. 0), frozen = False \<rparr>"

text \<open>The addresses of the scenarios: the faucet, its deployer, the token, a requester.\<close>

definition faucet :: address where "faucet = 250"
definition boss :: address where "boss = 176"
definition xfi :: address where "xfi = 112"
definition alice :: address where "alice = 161"

text \<open>
  The faucet of the scenarios: deployed by \<open>boss\<close> at time 0 for the token at \<open>xfi\<close>,
  while the faucet's address holds \<open>pool\<close> tokens of the stand-in ledger.
\<close>

definition scenario_start :: "uint256 \<Rightarrow> uint256 \<Rightarrow> uint256 \<Rightarrow> uint256 \<Rightarrow> std_token world" where
  "scenario_start pool tpr cd cap =
    projr (constructor faucet boss (pool_of pool faucet) 0 xfi tpr cd cap)"

subsection \<open>The vocabulary of the claims\<close>

text \<open>
  The daily usage of an address as the limit check sees it: the stored counter, or 0 when
  the stored day is before the current day (the lazy rollover).
\<close>

definition usedToday :: "'t world \<Rightarrow> address \<Rightarrow> uint256" where
  "usedToday w user =
    (if lastRequestDay w user < timestamp w div one_day then 0 else dailyRequested w user)"

text \<open>
  The four preconditions of a claim in the words of the specification, over unbounded
  numbers, and the reason of the first one that fails in the order cooldown, daily limit,
  pool balance, pause flag.
\<close>

definition cooldown_passed :: "'t world \<Rightarrow> address \<Rightarrow> bool" where
  "cooldown_passed w user = (nextRequestTime w user \<le> timestamp w)"

definition within_daily_cap :: "'t world \<Rightarrow> address \<Rightarrow> bool" where
  "within_daily_cap w user =
    (unat (usedToday w user) + unat (tokensPerRequest w) \<le> unat (maxTokensPerDay w))"

definition pool_funded :: "'t IERC20 \<Rightarrow> 't world \<Rightarrow> bool" where
  "pool_funded tk w = (tokensPerRequest w \<le> balanceOf tk (token w) (self_address w))"

definition first_failing_reason :: "'t IERC20 \<Rightarrow> 't world \<Rightarrow> address \<Rightarrow> string" where
  "first_failing_reason tk w user =
    (if \<not> cooldown_passed w user then ''Cooldown active''
     else if \<not> within_daily_cap w user then ''Daily limit exceeded''
     else if \<not> pool_funded tk w then ''Insufficient faucet balance''
     else if paused w then ''Faucet is paused''
     else [])"

text \<open>
  The invariant of the data model: the counter of every address whose stored day is the
  current day is at most the daily cap.
\<close>

definition daily_cap_invariant :: "'t world \<Rightarrow> bool" where
  "daily_cap_invariant w =
    (\<forall>addr. lastRequestDay w addr = timestamp w div one_day
       \<longrightarrow> dailyRequested w addr \<le> maxTokensPerDay w)"

text \<open>The cap \<open>m\<close> is at least the counter of every address whose stored day is the current day.\<close>

definition cap_covers_today :: "'t world \<Rightarrow> uint256 \<Rightarrow> bool" where
  "cap_covers_today w m =
    (\<forall>addr. lastRequestDay w addr = timestamp w div one_day \<longrightarrow> dailyRequested w addr \<le> m)"

text \<open>
  Whether the invariant holds after a step, from whether it held before (\<open>ok\<close>): an
  \<^verbatim>\<open>updateFaucetConfig\<close> that commits decides it anew, by whether its new cap covers
  the counters of the current day; the clock moving into a later day makes it hold; every
  other step, and every call that reverts, leaves it as it was.
\<close>

fun committed :: "outcome \<Rightarrow> bool" where
  "committed (Success evs) = True"
| "committed (Reverted e) = False"

fun holds_after :: "'t IERC20 \<Rightarrow> 't world \<Rightarrow> bool \<Rightarrow> 't step \<Rightarrow> bool" where
  "holds_after tk w ok (Tick now) = (ok \<or> timestamp w div one_day < now div one_day)"
| "holds_after tk w ok (Tx sender (UpdateFaucetConfig a b m)) =
    (if committed (fst (do_step tk w (Tx sender (UpdateFaucetConfig a b m))))
     then cap_covers_today w m else ok)"
| "holds_after tk w ok st = ok"

fun holds_after_run :: "'t IERC20 \<Rightarrow> 't world \<Rightarrow> bool \<Rightarrow> 't step list \<Rightarrow> bool" where
  "holds_after_run tk w ok [] = ok"
| "holds_after_run tk w ok (st # sts) =
    holds_after_run tk (snd (do_step tk w st)) (holds_after tk w ok st) sts"

text \<open>No stored day is after the current day.\<close>

definition days_in_past :: "'t world \<Rightarrow> bool" where
  "days_in_past w = (\<forall>addr. lastRequestDay w addr \<le> timestamp w div one_day)"

text \<open>
  The amounts disbursed by the successful claims of a run, oldest first: a claim that
  commits emits exactly one \<^verbatim>\<open>TokensRequested(user, amount)\<close>, with the amount it
  handed to the token's \<^verbatim>\<open>transfer\<close>, and nothing else emits that event.
\<close>

fun requested_amount :: "event \<Rightarrow> uint256 list" where
  "requested_amount (TokensRequested user amount) = [amount]"
| "requested_amount ev = []"

fun disbursed :: "outcome \<Rightarrow> uint256 list" where
  "disbursed (Success evs) = concat (map requested_amount evs)"
| "disbursed (Reverted e) = []"

definition claim_amounts :: "outcome list \<Rightarrow> uint256 list" where
  "claim_amounts outs = concat (map disbursed outs)"

text \<open>The successful claims of a run, counted on its steps and their outcomes.\<close>

fun successful_claim :: "'t step \<Rightarrow> outcome \<Rightarrow> bool" where
  "successful_claim (Tx sender RequestTokens) (Success evs) = True"
| "successful_claim st out = False"

definition count_successful_claims :: "'t step list \<Rightarrow> outcome list \<Rightarrow> nat" where
  "count_successful_claims sts outs =
     length (filter (\<lambda>(st, out). successful_claim st out) (zip sts outs))"

section \<open>Properties\<close>

lemmas faucet_code =
  requestTokens_def canUserRequest_def updateFaucetConfig_def withdrawTokens_def
  depositTokens_def emergencyWithdraw_def pause_def unpause_def resetUserCooldown_def
  constructor_def transact_def checked_add_def overflows_def checked_sub_def bindE_def
  one_day_def Let_def

lemmas scenario_code =
  std_erc20_def std_transfer_def std_transferFrom_def pool_of_def
  faucet_def boss_def xfi_def alice_def

subsection \<open>The claim as one cascade of tests\<close>

text \<open>
  \<open>requestTokens\<close> written over the world before the call only: the order of its
  tests, the error of each, and the world it commits.
\<close>

lemma requestTokens_flat:
  "requestTokens tk w user =
    (if entered w then Inl ReentrantCall
     else if paused w then Inl PausablePaused
     else if timestamp w < nextRequestTime w user
       then Inl (CooldownActive (nextRequestTime w user - timestamp w))
     else if overflows (usedToday w user) (tokensPerRequest w) then Inl Panic
     else if maxTokensPerDay w < usedToday w user + tokensPerRequest w
       then (if maxTokensPerDay w < usedToday w user then Inl Panic
             else Inl (DailyLimitExceeded (maxTokensPerDay w - usedToday w user)))
     else if balanceOf tk (token w) (self_address w) < tokensPerRequest w
       then Inl InsufficientFaucetBalance
     else if overflows (timestamp w) (cooldownTime w) then Inl Panic
     else if overflows (totalRequests w) 1 then Inl Panic
     else if overflows (totalTokensDistributed w) (tokensPerRequest w) then Inl Panic
     else (case transfer tk (token w) (self_address w) user (tokensPerRequest w) of
             None \<Rightarrow> Inl TokenReverted
           | Some (success, tok') \<Rightarrow>
               if \<not> success then Inl TransferFailed
               else Inr ([TokensRequested user (tokensPerRequest w)],
                 w\<lparr>nextRequestTime := (nextRequestTime w)(user := timestamp w + cooldownTime w),
                   dailyRequested := (dailyRequested w)(user := usedToday w user + tokensPerRequest w),
                   lastRequestDay := (lastRequestDay w)
                      (user := if lastRequestDay w user < timestamp w div one_day
                               then timestamp w div one_day else lastRequestDay w user),
                   totalRequests := totalRequests w + 1,
                   totalTokensDistributed := totalTokensDistributed w + tokensPerRequest w,
                   token := tok'\<rparr>)))"
proof -
  note rt = requestTokens_def Let_def bindE_def checked_sub_def checked_add_def less_imp_le
  show ?thesis
  proof (cases "lastRequestDay w user < timestamp w div one_day")
    case True
    then have u: "usedToday w user = 0" by (simp add: usedToday_def)
    from True show ?thesis
      unfolding u
      apply (cases "entered w"; simp add: rt split del: if_split)
      apply (cases "paused w"; simp add: rt split del: if_split)
      apply (cases "timestamp w < nextRequestTime w user"; simp add: rt split del: if_split)
      apply (cases "overflows 0 (tokensPerRequest w)"; simp add: rt split del: if_split)
      apply (cases "maxTokensPerDay w < tokensPerRequest w"; simp add: rt split del: if_split)
      apply (cases "balanceOf tk (token w) (self_address w) < tokensPerRequest w"; simp add: rt split del: if_split)
      apply (cases "overflows (timestamp w) (cooldownTime w)"; simp add: rt split del: if_split)
      apply (cases "overflows (totalRequests w) 1"; simp add: rt split del: if_split)
      apply (cases "overflows (totalTokensDistributed w) (tokensPerRequest w)"; simp add: rt split del: if_split)
      apply (simp split: option.split)
      done
  next
    case False
    then have u: "usedToday w user = dailyRequested w user" by (simp add: usedToday_def)
    from False show ?thesis
      unfolding u
      apply (cases "entered w"; simp add: rt split del: if_split)
      apply (cases "paused w"; simp add: rt split del: if_split)
      apply (cases "timestamp w < nextRequestTime w user"; simp add: rt split del: if_split)
      apply (cases "overflows (dailyRequested w user) (tokensPerRequest w)"; simp add: rt split del: if_split)
      apply (cases "maxTokensPerDay w < dailyRequested w user + tokensPerRequest w"; simp add: rt split del: if_split)
       apply (cases "maxTokensPerDay w < dailyRequested w user"; simp add: rt not_less[symmetric] split del: if_split)
      apply (cases "balanceOf tk (token w) (self_address w) < tokensPerRequest w"; simp add: rt split del: if_split)
      apply (cases "overflows (timestamp w) (cooldownTime w)"; simp add: rt split del: if_split)
      apply (cases "overflows (totalRequests w) 1"; simp add: rt split del: if_split)
      apply (cases "overflows (totalTokensDistributed w) (tokensPerRequest w)"; simp add: rt split del: if_split)
      apply (simp split: option.split)
      done
  qed
qed

subsection \<open>Consequences of the cascade\<close>

lemma unat_uint256_bound: "unat (a :: uint256) < 2 ^ 256"
  using unsigned_less [of a, where ?'a = nat] by simp

lemma not_overflows_zero [simp]: "\<not> overflows 0 b" "\<not> overflows a 0"
  using unat_uint256_bound [of a] unat_uint256_bound [of b] by (simp_all add: overflows_def)

lemma usedToday_config [simp]:
  "usedToday (w\<lparr>tokensPerRequest := a, cooldownTime := b, maxTokensPerDay := c,
      minTokenBalance := d\<rparr>) user = usedToday w user"
  by (simp add: usedToday_def)

lemma usedToday_reset [simp]:
  "usedToday (w\<lparr>nextRequestTime := f\<rparr>) user = usedToday w user"
  by (simp add: usedToday_def)

lemma requestTokens_daily_limit:
  assumes "\<not> entered w" "\<not> paused w" "nextRequestTime w user \<le> timestamp w"
    and "\<not> overflows (usedToday w user) (tokensPerRequest w)"
    and "maxTokensPerDay w < usedToday w user + tokensPerRequest w"
  shows "requestTokens tk w user =
    (if maxTokensPerDay w < usedToday w user then Inl Panic
     else Inl (DailyLimitExceeded (maxTokensPerDay w - usedToday w user)))"
  using assms by (simp add: requestTokens_flat not_less [symmetric])

lemma requestTokens_daily_overflow:
  assumes "\<not> entered w" "\<not> paused w" "nextRequestTime w user \<le> timestamp w"
    and "overflows (usedToday w user) (tokensPerRequest w)"
  shows "requestTokens tk w user = Inl Panic"
  using assms by (simp add: requestTokens_flat not_less [symmetric])

lemma requestTokens_no_cooldown_error:
  assumes "nextRequestTime w user \<le> timestamp w"
  shows "requestTokens tk w user \<noteq> Inl (CooldownActive r)"
  using assms by (simp add: requestTokens_flat not_less [symmetric] split: option.split)

lemma over_cap_cases:
  assumes "\<not> within_daily_cap w user"
  shows "overflows (usedToday w user) (tokensPerRequest w)
       \<or> maxTokensPerDay w < usedToday w user + tokensPerRequest w"
proof (cases "overflows (usedToday w user) (tokensPerRequest w)")
  case False
  then have "unat (usedToday w user + tokensPerRequest w)
      = unat (usedToday w user) + unat (tokensPerRequest w)"
    by (simp add: overflows_def unat_add_lem [THEN iffD1])
  with assms show ?thesis
    by (simp add: within_daily_cap_def word_less_nat_alt)
qed simp

lemma requestTokens_commit:
  assumes "requestTokens tk w user = Inr (evs, w')"
  shows "evs = [TokensRequested user (tokensPerRequest w)]"
    and "\<not> entered w" and "\<not> paused w" and "nextRequestTime w user \<le> timestamp w"
    and "\<not> overflows (usedToday w user) (tokensPerRequest w)"
    and "usedToday w user + tokensPerRequest w \<le> maxTokensPerDay w"
    and "tokensPerRequest w \<le> balanceOf tk (token w) (self_address w)"
    and "\<not> overflows (timestamp w) (cooldownTime w)"
    and "\<not> overflows (totalRequests w) 1"
    and "\<not> overflows (totalTokensDistributed w) (tokensPerRequest w)"
    and "\<exists>tok'. transfer tk (token w) (self_address w) user (tokensPerRequest w) = Some (True, tok')
        \<and> w' = w\<lparr>nextRequestTime := (nextRequestTime w)(user := timestamp w + cooldownTime w),
                   dailyRequested := (dailyRequested w)(user := usedToday w user + tokensPerRequest w),
                   lastRequestDay := (lastRequestDay w)
                      (user := if lastRequestDay w user < timestamp w div one_day
                               then timestamp w div one_day else lastRequestDay w user),
                   totalRequests := totalRequests w + 1,
                   totalTokensDistributed := totalTokensDistributed w + tokensPerRequest w,
                   token := tok'\<rparr>"
  using assms
  by (auto simp: requestTokens_flat not_less split: if_splits option.splits prod.splits)

lemma run_Cons:
  "run tk w (st # sts) =
    (fst (run tk (snd (do_step tk w st)) sts),
     fst (do_step tk w st) # snd (run tk (snd (do_step tk w st)) sts))"
  by (simp add: case_prod_unfold Let_def)

lemma day_mono: "(a :: uint256) \<le> b \<Longrightarrow> a div one_day \<le> b div one_day"
  by (simp add: word_le_nat_alt unat_div div_le_mono)

lemma invariant_requestTokens:
  assumes "requestTokens tk w user = Inr (evs, w')"
  shows "daily_cap_invariant w' = daily_cap_invariant w"
proof -
  note c = requestTokens_commit [OF assms]
  from c(11) obtain tok' where w': "w' = w\<lparr>nextRequestTime := (nextRequestTime w)(user := timestamp w + cooldownTime w),
                   dailyRequested := (dailyRequested w)(user := usedToday w user + tokensPerRequest w),
                   lastRequestDay := (lastRequestDay w)
                      (user := if lastRequestDay w user < timestamp w div one_day
                               then timestamp w div one_day else lastRequestDay w user),
                   totalRequests := totalRequests w + 1,
                   totalTokensDistributed := totalTokensDistributed w + tokensPerRequest w,
                   token := tok'\<rparr>"
    by blast
  have used: "usedToday w user \<le> maxTokensPerDay w"
  proof -
    from c(5) have "unat (usedToday w user + tokensPerRequest w)
        = unat (usedToday w user) + unat (tokensPerRequest w)"
      by (simp add: overflows_def unat_add_lem [THEN iffD1])
    with c(6) show ?thesis by (simp add: word_le_nat_alt)
  qed
  show ?thesis
  proof
    assume inv: "daily_cap_invariant w'"
    show "daily_cap_invariant w"
      unfolding daily_cap_invariant_def
    proof (intro allI impI)
      fix addr assume d: "lastRequestDay w addr = timestamp w div one_day"
      show "dailyRequested w addr \<le> maxTokensPerDay w"
      proof (cases "addr = user")
        case True
        with d used show ?thesis by (simp add: usedToday_def)
      next
        case False
        from inv have "lastRequestDay w' addr = timestamp w' div one_day
            \<longrightarrow> dailyRequested w' addr \<le> maxTokensPerDay w'"
          unfolding daily_cap_invariant_def by blast
        with False d w' show ?thesis by simp
      qed
    qed
  next
    assume inv: "daily_cap_invariant w"
    show "daily_cap_invariant w'"
      unfolding daily_cap_invariant_def
    proof (intro allI impI)
      fix addr assume d: "lastRequestDay w' addr = timestamp w' div one_day"
      show "dailyRequested w' addr \<le> maxTokensPerDay w'"
      proof (cases "addr = user")
        case True
        with c(6) w' show ?thesis by simp
      next
        case False
        from inv have "lastRequestDay w addr = timestamp w div one_day
            \<longrightarrow> dailyRequested w addr \<le> maxTokensPerDay w"
          unfolding daily_cap_invariant_def by blast
        with False d w' show ?thesis by simp
      qed
    qed
  qed
qed

lemma days_requestTokens:
  assumes "requestTokens tk w user = Inr (evs, w')" "days_in_past w"
  shows "days_in_past w'"
  using requestTokens_commit(11) [OF assms(1)] assms(2)
  by (auto simp: days_in_past_def)

lemma invariant_step:
  assumes "days_in_past w"
  shows "daily_cap_invariant (snd (do_step tk w st)) = holds_after tk w (daily_cap_invariant w) st"
    and "days_in_past (snd (do_step tk w st))"
proof -
  have "daily_cap_invariant (snd (do_step tk w st)) = holds_after tk w (daily_cap_invariant w) st
      \<and> days_in_past (snd (do_step tk w st))"
  proof (cases st)
    case (Tx sender c)
    show ?thesis
    proof (cases c)
      case RequestTokens
      show ?thesis
      proof (cases "requestTokens tk w sender")
        case (Inl e)
        with Tx RequestTokens assms show ?thesis by (simp add: transact_def)
      next
        case (Inr r)
        obtain evs w1 where r: "r = (evs, w1)" by (cases r)
        from invariant_requestTokens [OF Inr [unfolded r]]
          days_requestTokens [OF Inr [unfolded r] assms]
          Tx RequestTokens Inr r
        show ?thesis by (simp add: transact_def)
      qed
    next
      case (UpdateFaucetConfig a b m)
      with Tx assms show ?thesis
        by (simp add: transact_def updateFaucetConfig_def daily_cap_invariant_def
            cap_covers_today_def days_in_past_def)
    qed (use Tx assms in \<open>auto simp: transact_def withdrawTokens_def depositTokens_def
          emergencyWithdraw_def pause_def unpause_def resetUserCooldown_def
          daily_cap_invariant_def days_in_past_def Let_def
          split: sum.splits option.splits if_splits\<close>)
  next
    case (Tick now)
    show ?thesis
    proof (cases "timestamp w \<le> now")
      case False
      then have "now div one_day \<le> timestamp w div one_day"
        by (intro day_mono) simp
      with False Tick assms show ?thesis
        by (simp add: not_less [symmetric])
    next
      case True
      note mono = day_mono [OF True]
      show ?thesis
      proof (cases "timestamp w div one_day < now div one_day")
        case adv: True
        have "lastRequestDay w addr \<noteq> now div one_day" for addr
        proof -
          from assms have "lastRequestDay w addr \<le> timestamp w div one_day"
            by (simp add: days_in_past_def)
          then have "lastRequestDay w addr < now div one_day"
            using adv by (rule le_less_trans)
          then show ?thesis by simp
        qed
        moreover have "lastRequestDay w addr \<le> now div one_day" for addr
          using assms mono by (auto simp: days_in_past_def intro: order_trans)
        ultimately show ?thesis
          using True Tick adv by (simp add: daily_cap_invariant_def days_in_past_def)
      next
        case False
        with mono have "now div one_day = timestamp w div one_day" by simp
        with True Tick False assms show ?thesis
          by (simp add: daily_cap_invariant_def days_in_past_def)
      qed
    qed
  next
    case (TokenMoves tok')
    with assms show ?thesis by (simp add: daily_cap_invariant_def days_in_past_def)
  qed
  then show "daily_cap_invariant (snd (do_step tk w st)) = holds_after tk w (daily_cap_invariant w) st"
    and "days_in_past (snd (do_step tk w st))"
    by simp_all
qed

lemma invariant_run:
  "days_in_past w \<Longrightarrow>
   daily_cap_invariant (fst (run tk w sts)) = holds_after_run tk w (daily_cap_invariant w) sts"
proof (induction sts arbitrary: w)
  case Nil
  then show ?case by simp
next
  case (Cons st sts)
  from invariant_step [OF Cons.prems, of tk st] Cons.IH [of "snd (do_step tk w st)"]
  show ?case by (simp add: run_Cons del: run.simps)
qed

lemma stats_step:
  assumes "do_step tk w st = (out, w')"
  shows "unat (totalTokensDistributed w')
           = unat (totalTokensDistributed w) + sum_list (map unat (disbursed out))"
    and "unat (totalRequests w') = unat (totalRequests w) + length (disbursed out)"
    and "length (disbursed out) = (if successful_claim st out then 1 else 0)"
proof -
  have "unat (totalTokensDistributed w')
           = unat (totalTokensDistributed w) + sum_list (map unat (disbursed out))
      \<and> unat (totalRequests w') = unat (totalRequests w) + length (disbursed out)
      \<and> length (disbursed out) = (if successful_claim st out then 1 else 0)"
  proof (cases st)
    case (Tx sender c)
    show ?thesis
    proof (cases c)
      case RequestTokens
      show ?thesis
      proof (cases "requestTokens tk w sender")
        case (Inl e)
        with Tx RequestTokens assms show ?thesis
          by (auto simp: transact_def)
      next
        case (Inr r)
        obtain evs w1 where r: "r = (evs, w1)" by (cases r)
        note commit = requestTokens_commit [OF Inr [unfolded r]]
        from commit(11) have
          w1: "totalRequests w1 = totalRequests w + 1"
              "totalTokensDistributed w1 = totalTokensDistributed w + tokensPerRequest w"
          by auto
        from commit(9) have "unat (totalRequests w + 1) = unat (totalRequests w) + 1"
          by (simp add: overflows_def unat_add_lem [THEN iffD1])
        moreover from commit(10) have "unat (totalTokensDistributed w + tokensPerRequest w)
            = unat (totalTokensDistributed w) + unat (tokensPerRequest w)"
          by (simp add: overflows_def unat_add_lem [THEN iffD1])
        ultimately show ?thesis
          using Tx RequestTokens assms Inr r commit(1) w1
          by (auto simp: transact_def)
      qed
    qed (use Tx assms in \<open>auto simp: transact_def updateFaucetConfig_def withdrawTokens_def
          depositTokens_def emergencyWithdraw_def pause_def unpause_def resetUserCooldown_def
          Let_def split: sum.splits option.splits if_splits\<close>)
  qed (use assms in auto)
  then show "unat (totalTokensDistributed w')
           = unat (totalTokensDistributed w) + sum_list (map unat (disbursed out))"
    and "unat (totalRequests w') = unat (totalRequests w) + length (disbursed out)"
    and "length (disbursed out) = (if successful_claim st out then 1 else 0)"
    by simp_all
qed

lemma stats_run:
  "run tk w sts = (w', outs) \<Longrightarrow>
     unat (totalTokensDistributed w')
       = unat (totalTokensDistributed w) + sum_list (map unat (claim_amounts outs))
   \<and> unat (totalRequests w') = unat (totalRequests w) + length (claim_amounts outs)
   \<and> length (claim_amounts outs) = count_successful_claims sts outs"
proof (induction sts arbitrary: w w' outs)
  case Nil
  then show ?case by (simp add: claim_amounts_def count_successful_claims_def)
next
  case (Cons st sts)
  obtain out w1 where st: "do_step tk w st = (out, w1)" by (cases "do_step tk w st")
  obtain w2 outs2 where rest: "run tk w1 sts = (w2, outs2)" by (cases "run tk w1 sts")
  from Cons.prems st rest have eq: "w' = w2" "outs = out # outs2"
    by (simp_all add: run_Cons del: run.simps)
  from Cons.IH [OF rest] stats_step [OF st] eq show ?case
    by (simp add: claim_amounts_def count_successful_claims_def)
qed

lemma counters_never_decrease:
  "totalRequests w \<le> totalRequests (snd (do_step tk w st))
   \<and> totalTokensDistributed w \<le> totalTokensDistributed (snd (do_step tk w st))"
proof -
  obtain out w' where st: "do_step tk w st = (out, w')" by (cases "do_step tk w st")
  from stats_step(1,2) [OF st] st show ?thesis
    by (simp add: word_le_nat_alt)
qed

lemma canUserRequest_flat:
  "canUserRequest tk w user =
    (if timestamp w < nextRequestTime w user then Inr (False, ''Cooldown active'')
     else if overflows (usedToday w user) (tokensPerRequest w) then Inl Panic
     else if maxTokensPerDay w < usedToday w user + tokensPerRequest w
       then Inr (False, ''Daily limit exceeded'')
     else if balanceOf tk (token w) (self_address w) < tokensPerRequest w
       then Inr (False, ''Insufficient faucet balance'')
     else if paused w then Inr (False, ''Faucet is paused'')
     else Inr (True, []))"
  by (simp add: canUserRequest_def usedToday_def Let_def bindE_def checked_add_def)

lemma within_daily_cap_iff:
  "within_daily_cap w user =
    (\<not> overflows (usedToday w user) (tokensPerRequest w)
     \<and> usedToday w user + tokensPerRequest w \<le> maxTokensPerDay w)"
proof (cases "overflows (usedToday w user) (tokensPerRequest w)")
  case True
  with unat_uint256_bound [of "maxTokensPerDay w"] show ?thesis
    by (simp add: within_daily_cap_def overflows_def)
next
  case False
  then have "unat (usedToday w user + tokensPerRequest w)
      = unat (usedToday w user) + unat (tokensPerRequest w)"
    by (simp add: overflows_def unat_add_lem [THEN iffD1])
  with False show ?thesis
    by (simp add: within_daily_cap_def word_le_nat_alt)
qed

lemma spec_preconditions:
  "cooldown_passed w user = (\<not> timestamp w < nextRequestTime w user)"
  "pool_funded tk w = (\<not> balanceOf tk (token w) (self_address w) < tokensPerRequest w)"
  "within_daily_cap w user =
    (\<not> overflows (usedToday w user) (tokensPerRequest w)
     \<and> \<not> maxTokensPerDay w < usedToday w user + tokensPerRequest w)"
  by (simp_all add: cooldown_passed_def pool_funded_def within_daily_cap_iff not_less)

lemma canUserRequest_true_iff:
  "(canUserRequest tk w user = Inr (True, [])) =
     (cooldown_passed w user \<and> within_daily_cap w user \<and> pool_funded tk w \<and> \<not> paused w)"
  by (simp add: canUserRequest_flat spec_preconditions)

lemma canUserRequest_false_reason:
  assumes "canUserRequest tk w user = Inr (False, reason)"
  shows "reason = first_failing_reason tk w user \<and> reason \<noteq> []"
proof (cases "timestamp w < nextRequestTime w user")
  case True
  with assms show ?thesis
    by (auto simp: canUserRequest_flat first_failing_reason_def spec_preconditions)
next
  case cool: False
  show ?thesis
  proof (cases "overflows (usedToday w user) (tokensPerRequest w)")
    case True
    with cool assms show ?thesis
      by (simp add: canUserRequest_flat)
  next
    case fits: False
    show ?thesis
    proof (cases "maxTokensPerDay w < usedToday w user + tokensPerRequest w")
      case True
      with cool fits assms show ?thesis
        by (auto simp: canUserRequest_flat first_failing_reason_def spec_preconditions)
    next
      case cap: False
      show ?thesis
      proof (cases "balanceOf tk (token w) (self_address w) < tokensPerRequest w")
        case True
        with cool fits cap assms show ?thesis
          by (auto simp: canUserRequest_flat first_failing_reason_def spec_preconditions)
      next
        case False
        with cool fits cap assms show ?thesis
          by (cases "paused w")
            (auto simp: canUserRequest_flat first_failing_reason_def spec_preconditions)
      qed
    qed
  qed
qed

lemma requestTokens_succeeds_iff:
  assumes "\<not> entered w"
  shows "(\<exists>r. requestTokens tk w user = Inr r) =
    (cooldown_passed w user \<and> within_daily_cap w user \<and> pool_funded tk w \<and> \<not> paused w
     \<and> \<not> overflows (timestamp w) (cooldownTime w)
     \<and> \<not> overflows (totalRequests w) 1
     \<and> \<not> overflows (totalTokensDistributed w) (tokensPerRequest w)
     \<and> (\<exists>tok'. transfer tk (token w) (self_address w) user (tokensPerRequest w)
           = Some (True, tok')))" (is "?lhs = ?rhs")
proof
  assume ?lhs
  then obtain evs w' where "requestTokens tk w user = Inr (evs, w')" by auto
  from requestTokens_commit [OF this] show ?rhs
    by (simp add: spec_preconditions not_less) blast
next
  assume ?rhs
  then obtain tok' where
    "transfer tk (token w) (self_address w) user (tokensPerRequest w) = Some (True, tok')"
    by blast
  with \<open>?rhs\<close> assms show ?lhs
    by (simp add: requestTokens_flat spec_preconditions)
qed

lemma entered_step:
  assumes "\<not> entered w"
  shows "\<not> entered (snd (do_step tk w st))"
proof (cases st)
  case (Tx sender c)
  show ?thesis
  proof (cases c)
    case RequestTokens
    show ?thesis
    proof (cases "requestTokens tk w sender")
      case (Inl e)
      with Tx RequestTokens assms show ?thesis by (simp add: transact_def)
    next
      case (Inr r)
      obtain evs w1 where r: "r = (evs, w1)" by (cases r)
      from requestTokens_commit(11) [OF Inr [unfolded r]] assms have "\<not> entered w1" by auto
      with Tx RequestTokens Inr r show ?thesis by (simp add: transact_def)
    qed
  qed (use Tx assms in \<open>auto simp: transact_def updateFaucetConfig_def withdrawTokens_def
        depositTokens_def emergencyWithdraw_def pause_def unpause_def resetUserCooldown_def
        Let_def split: sum.splits option.splits if_splits\<close>)
qed (use assms in auto)

lemma entered_run: "\<not> entered w \<Longrightarrow> \<not> entered (fst (run tk w sts))"
proof (induction sts arbitrary: w)
  case Nil
  then show ?case by simp
next
  case (Cons st sts)
  from Cons.IH [OF entered_step [OF Cons.prems]] show ?case
    by (simp add: run_Cons del: run.simps)
qed

text \<open>
  What a reverted claim leaves behind, and the typed error of each failing precondition
  in the order of the tests (for the daily limit: as long as the usage of the day does not
  itself exceed the cap).
\<close>

lemma reverted_call_changes_nothing:
  "fst (transact f w) = Reverted e \<Longrightarrow> snd (transact f w) = w"
  by (auto simp: transact_def split: sum.splits prod.splits)

lemma requestTokens_typed_errors:
  assumes "\<not> entered w"
  shows "paused w \<Longrightarrow> requestTokens tk w user = Inl PausablePaused"
    and "\<not> paused w \<Longrightarrow> \<not> cooldown_passed w user \<Longrightarrow>
          requestTokens tk w user
            = Inl (CooldownActive (nextRequestTime w user - timestamp w))"
    and "\<not> paused w \<Longrightarrow> cooldown_passed w user \<Longrightarrow> \<not> within_daily_cap w user \<Longrightarrow>
          \<not> overflows (usedToday w user) (tokensPerRequest w) \<Longrightarrow>
          usedToday w user \<le> maxTokensPerDay w \<Longrightarrow>
          requestTokens tk w user
            = Inl (DailyLimitExceeded (maxTokensPerDay w - usedToday w user))"
    and "\<not> paused w \<Longrightarrow> cooldown_passed w user \<Longrightarrow> within_daily_cap w user \<Longrightarrow>
          \<not> pool_funded tk w \<Longrightarrow>
          requestTokens tk w user = Inl InsufficientFaucetBalance"
    and "\<not> paused w \<Longrightarrow> cooldown_passed w user \<Longrightarrow> within_daily_cap w user \<Longrightarrow>
          pool_funded tk w \<Longrightarrow>
          \<not> overflows (timestamp w) (cooldownTime w) \<Longrightarrow> \<not> overflows (totalRequests w) 1 \<Longrightarrow>
          \<not> overflows (totalTokensDistributed w) (tokensPerRequest w) \<Longrightarrow>
          transfer tk (token w) (self_address w) user (tokensPerRequest w) = Some (False, tok') \<Longrightarrow>
          requestTokens tk w user = Inl TransferFailed"
  using assms
  by (simp_all add: requestTokens_flat spec_preconditions not_less [symmetric])

text \<open>
  C5. With tokensPerRequest = 10, cooldownTime = 86400, maxTokensPerDay = 10 and a pool of
  100, a fresh address claims at time 0 and succeeds, leaving the pool at 90 and its
  nextRequestTime at 86400; it claims again at time 100 and fails with CooldownActive
  carrying 86300, the world staying as it was; it claims at time 86400 and succeeds (the
  day index is now 1, so the daily counter is rolled over to 0 before the limit check),
  leaving the pool at 80.
\<close>

theorem scenario_claim_cooldown_claim:
  "case constructor faucet boss (pool_of 100 faucet) 0 xfi 10 86400 10 of
     Inl e \<Rightarrow> False
   | Inr w0 \<Rightarrow>
      (let (o1, w1) = do_step std_erc20 w0 (Tx alice RequestTokens);
           (t2, w1') = do_step std_erc20 w1 (Tick 100);
           (o2, w2) = do_step std_erc20 w1' (Tx alice RequestTokens);
           (t3, w2') = do_step std_erc20 w2 (Tick 86400);
           (o3, w3) = do_step std_erc20 w2' (Tx alice RequestTokens)
       in balanceOf std_erc20 (token w0) faucet = 100
        \<and> o1 = Success [TokensRequested alice 10]
        \<and> balanceOf std_erc20 (token w1) faucet = 90
        \<and> nextRequestTime w1 alice = 86400
        \<and> timestamp w1' = 100
        \<and> o2 = Reverted (CooldownActive 86300)
        \<and> w2 = w1'
        \<and> timestamp w2' = 86400
        \<and> lastRequestDay w2' alice = 0 \<and> dailyRequested w2' alice = 10
        \<and> o3 = Success [TokensRequested alice 10]
        \<and> lastRequestDay w3 alice = 1 \<and> dailyRequested w3 alice = 10
        \<and> balanceOf std_erc20 (token w3) faucet = 80
        \<and> balanceOf std_erc20 (token w3) alice = 20)"
  by (simp add: faucet_code scenario_code)

text \<open>
  C6. Called by the owner, updateFaucetConfig succeeds for every nonzero tokensPerRequest,
  whatever the other two values: it replaces the three configuration values, sets
  minTokenBalance to tokensPerRequest and emits FaucetConfigUpdated. It accepts a
  maxTokensPerDay strictly below tokensPerRequest, and after such an update a claim by an
  address with no usage today, with the faucet unpaused and the cooldown passed, reverts
  with DailyLimitExceeded carrying the new maxTokensPerDay (5 for the configuration 10 and
  5), whatever the pool holds. With tokensPerRequest = 0 the update reverts with
  InvalidAmount and the world is unchanged.
\<close>

theorem updateFaucetConfig_validates_only_nonzero:
  "(sender = owner w \<and> tpr \<noteq> 0 \<longrightarrow>
      updateFaucetConfig w sender tpr cd m =
        Inr ([FaucetConfigUpdated tpr cd m],
             w\<lparr>tokensPerRequest := tpr, cooldownTime := cd, maxTokensPerDay := m,
               minTokenBalance := tpr\<rparr>))
   \<and> (sender = owner w \<and> tpr \<noteq> 0 \<and> m < tpr \<and> \<not> entered w \<and> \<not> paused w
        \<and> cooldown_passed w user \<and> usedToday w user = 0 \<longrightarrow>
      (case updateFaucetConfig w sender tpr cd m of
         Inl e \<Rightarrow> False
       | Inr (evs, w') \<Rightarrow>
           transact (\<lambda>v. requestTokens tk v user) w' = (Reverted (DailyLimitExceeded m), w')))
   \<and> (sender = owner w \<longrightarrow>
        transact (\<lambda>v. updateFaucetConfig v sender 0 cd m) w = (Reverted InvalidAmount, w))"
proof (intro conjI impI)
  assume "sender = owner w \<and> tpr \<noteq> 0"
  then show "updateFaucetConfig w sender tpr cd m =
        Inr ([FaucetConfigUpdated tpr cd m],
             w\<lparr>tokensPerRequest := tpr, cooldownTime := cd, maxTokensPerDay := m,
               minTokenBalance := tpr\<rparr>)"
    by (simp add: updateFaucetConfig_def)
next
  let ?w' = "w\<lparr>tokensPerRequest := tpr, cooldownTime := cd, maxTokensPerDay := m,
               minTokenBalance := tpr\<rparr>"
  assume a: "sender = owner w \<and> tpr \<noteq> 0 \<and> m < tpr \<and> \<not> entered w \<and> \<not> paused w
        \<and> cooldown_passed w user \<and> usedToday w user = 0"
  then have "requestTokens tk ?w' user = Inl (DailyLimitExceeded m)"
    by (subst requestTokens_daily_limit) (simp_all add: cooldown_passed_def)
  with a show "case updateFaucetConfig w sender tpr cd m of
         Inl e \<Rightarrow> False
       | Inr (evs, w') \<Rightarrow>
           transact (\<lambda>v. requestTokens tk v user) w' = (Reverted (DailyLimitExceeded m), w')"
    by (simp add: updateFaucetConfig_def transact_def)
next
  assume "sender = owner w"
  then show "transact (\<lambda>v. updateFaucetConfig v sender 0 cd m) w = (Reverted InvalidAmount, w)"
    by (simp add: updateFaucetConfig_def transact_def)
qed

theorem updateFaucetConfig_validates_only_nonzero_witness:
  "case constructor faucet boss (pool_of 100 faucet) 0 xfi 10 86400 10 of
     Inl e \<Rightarrow> False
   | Inr w \<Rightarrow>
       boss = owner w \<and> \<not> entered w \<and> \<not> paused w \<and> cooldown_passed w alice
     \<and> usedToday w alice = 0 \<and> pool_funded std_erc20 w
     \<and> (case updateFaucetConfig w boss 10 86400 5 of
          Inl e \<Rightarrow> False
        | Inr (evs, w') \<Rightarrow>
            evs = [FaucetConfigUpdated 10 86400 5]
          \<and> tokensPerRequest w' = 10 \<and> cooldownTime w' = 86400
          \<and> maxTokensPerDay w' = 5 \<and> minTokenBalance w' = 10
          \<and> transact (\<lambda>v. requestTokens std_erc20 v alice) w'
              = (Reverted (DailyLimitExceeded 5), w'))
     \<and> transact (\<lambda>v. updateFaucetConfig v boss 0 86400 5) w = (Reverted InvalidAmount, w)"
  using updateFaucetConfig_validates_only_nonzero
    [of boss "projr (constructor faucet boss (pool_of 100 faucet) 0 xfi 10 86400 10)"
        10 86400 5 alice std_erc20]
  by (simp add: faucet_code scenario_code cooldown_passed_def usedToday_def pool_funded_def)

text \<open>
  C8. Called by the owner, resetUserCooldown(A) sets nextRequestTime[A] to 0 and changes
  nothing else: not the daily counter or the stored day of A, not the entry of any other
  address, not the configuration, the statistics or the pause flag. A claim by A after it
  never fails with CooldownActive, and still fails at the daily limit check (with
  DailyLimitExceeded, or with the arithmetic panic of that check) when the usage of the
  day plus tokensPerRequest exceeds maxTokensPerDay.
\<close>

theorem resetUserCooldown_frame:
  "sender = owner w \<Longrightarrow>
   (case resetUserCooldown w sender A of
      Inl e \<Rightarrow> False
    | Inr (evs, w') \<Rightarrow>
        evs = [] \<and> w' = w\<lparr>nextRequestTime := (nextRequestTime w)(A := 0)\<rparr>
      \<and> nextRequestTime w' A = 0
      \<and> (\<forall>B. B \<noteq> A \<longrightarrow> nextRequestTime w' B = nextRequestTime w B)
      \<and> dailyRequested w' = dailyRequested w \<and> lastRequestDay w' = lastRequestDay w
      \<and> tokensPerRequest w' = tokensPerRequest w \<and> cooldownTime w' = cooldownTime w
      \<and> maxTokensPerDay w' = maxTokensPerDay w \<and> minTokenBalance w' = minTokenBalance w
      \<and> totalRequests w' = totalRequests w
      \<and> totalTokensDistributed w' = totalTokensDistributed w
      \<and> paused w' = paused w \<and> owner w' = owner w \<and> token w' = token w
      \<and> timestamp w' = timestamp w \<and> entered w' = entered w
      \<and> (\<forall>r. requestTokens tk w' A \<noteq> Inl (CooldownActive r))
      \<and> (\<not> entered w \<and> \<not> paused w \<and> \<not> within_daily_cap w A \<longrightarrow>
          requestTokens tk w' A = Inl Panic
          \<or> (\<exists>r. requestTokens tk w' A = Inl (DailyLimitExceeded r))))"
proof -
  let ?w' = "w\<lparr>nextRequestTime := (nextRequestTime w)(A := 0)\<rparr>"
  assume own: "sender = owner w"
  have nocool: "requestTokens tk ?w' A \<noteq> Inl (CooldownActive r)" for r
    by (rule requestTokens_no_cooldown_error) simp
  have cap: "requestTokens tk ?w' A = Inl Panic
          \<or> (\<exists>r. requestTokens tk ?w' A = Inl (DailyLimitExceeded r))"
    if "\<not> entered w" "\<not> paused w" "\<not> within_daily_cap w A"
  proof (cases "overflows (usedToday w A) (tokensPerRequest w)")
    case True
    with that have "requestTokens tk ?w' A = Inl Panic"
      by (intro requestTokens_daily_overflow) simp_all
    then show ?thesis ..
  next
    case False
    with over_cap_cases [OF that(3)]
    have "maxTokensPerDay w < usedToday w A + tokensPerRequest w" by simp
    with that False show ?thesis
      by (subst requestTokens_daily_limit; simp)+
  qed
  from own nocool cap show ?thesis
    by (simp add: resetUserCooldown_def)
qed

theorem resetUserCooldown_frame_witness:
  "case constructor faucet boss (pool_of 100 faucet) 0 xfi 10 86400 10 of
     Inl e \<Rightarrow> False
   | Inr w0 \<Rightarrow>
      (let w = snd (do_step std_erc20 w0 (Tx alice RequestTokens)) in
         boss = owner w \<and> \<not> entered w \<and> \<not> paused w \<and> \<not> within_daily_cap w alice
       \<and> nextRequestTime w alice = 86400 \<and> dailyRequested w alice = 10
       \<and> requestTokens std_erc20 w alice = Inl (CooldownActive 86400)
       \<and> (case resetUserCooldown w boss alice of
            Inl e \<Rightarrow> False
          | Inr (evs, w') \<Rightarrow>
              nextRequestTime w' alice = 0 \<and> dailyRequested w' alice = 10
            \<and> requestTokens std_erc20 w' alice = Inl (DailyLimitExceeded 0)))"
  using resetUserCooldown_frame
    [of boss "snd (do_step std_erc20
                (projr (constructor faucet boss (pool_of 100 faucet) 0 xfi 10 86400 10))
                (Tx alice RequestTokens))" alice std_erc20]
  by (simp add: faucet_code scenario_code within_daily_cap_def usedToday_def)

text \<open>
  C9. The constructor reverts only for a zero token address, with InvalidAddress. For a
  nonzero token address it accepts tokensPerRequest = 0, cooldownTime = 0 and
  maxTokensPerDay = 0 and stores them, although updateFaucetConfig, called on the faucet
  so constructed by its owner, refuses tokensPerRequest = 0 with InvalidAmount.
\<close>

theorem constructor_rejects_only_zero_token:
  "(constructor this sender tok now x a b c = Inl e) = (x = 0 \<and> e = InvalidAddress)
   \<and> (x \<noteq> 0 \<longrightarrow>
        (case constructor this sender tok now x 0 0 0 of
           Inl e' \<Rightarrow> False
         | Inr w \<Rightarrow>
             tokensPerRequest w = 0 \<and> cooldownTime w = 0 \<and> maxTokensPerDay w = 0
           \<and> minTokenBalance w = 0 \<and> owner w = sender
           \<and> updateFaucetConfig w sender 0 b c = Inl InvalidAmount))"
  by (auto simp: constructor_def updateFaucetConfig_def)

theorem constructor_rejects_only_zero_token_witness:
  "xfi \<noteq> 0
   \<and> constructor faucet boss (pool_of 0 faucet) 0 0 10 86400 10 = Inl InvalidAddress
   \<and> (case constructor faucet boss (pool_of 0 faucet) 0 xfi 0 0 0 of
        Inl e' \<Rightarrow> False
      | Inr w \<Rightarrow>
          tokensPerRequest w = 0 \<and> cooldownTime w = 0 \<and> maxTokensPerDay w = 0
        \<and> minTokenBalance w = 0 \<and> owner w = boss
        \<and> updateFaucetConfig w boss 0 0 0 = Inl InvalidAmount)"
  using constructor_rejects_only_zero_token
    [of faucet boss "pool_of 0 faucet" 0 xfi 0 0 0 InvalidAddress]
    constructor_rejects_only_zero_token
    [of faucet boss "pool_of 0 faucet" 0 0 10 86400 10 InvalidAddress]
  by (simp add: xfi_def)

text \<open>
  C10. withdrawTokens(0) called by the owner while the pool holds nothing does not fail
  with InsufficientFaucetBalance: the amount becomes the balance, 0, the test 0 > 0 is
  false, and the token's transfer of 0 to the owner is attempted. When that transfer
  returns true, TokensWithdrawn(owner, 0) is emitted and no slot of the faucet changes
  (the token is left in the state its transfer returns).
\<close>

theorem withdraw_zero_from_empty_pool:
  "sender = owner w \<Longrightarrow> balanceOf tk (token w) (self_address w) = 0 \<Longrightarrow>
   withdrawTokens tk w sender 0 \<noteq> Inl InsufficientFaucetBalance
   \<and> withdrawTokens tk w sender 0 =
      (case transfer tk (token w) (self_address w) (owner w) 0 of
         None \<Rightarrow> Inl TokenReverted
       | Some (success, tok') \<Rightarrow>
           if success then Inr ([TokensWithdrawn (owner w) 0], w\<lparr>token := tok'\<rparr>)
           else Inl TransferFailed)"
  by (simp add: withdrawTokens_def split: option.split)

theorem withdraw_zero_from_empty_pool_witness:
  "case constructor faucet boss (pool_of 0 faucet) 0 xfi 10 86400 10 of
     Inl e \<Rightarrow> False
   | Inr w \<Rightarrow>
       boss = owner w \<and> balanceOf std_erc20 (token w) (self_address w) = 0
     \<and> transfer std_erc20 (token w) (self_address w) (owner w) 0 = Some (True, token w)
     \<and> withdrawTokens std_erc20 w boss 0 = Inr ([TokensWithdrawn boss 0], w)"
  using withdraw_zero_from_empty_pool
    [of boss "projr (constructor faucet boss (pool_of 0 faucet) 0 xfi 10 86400 10)" std_erc20]
  by (simp add: constructor_def scenario_code)

text \<open>
  C1. requestTokens is to be all-or-nothing, with the typed error of the precondition that
  fails. A claim that reverts does leave the world as it was
  (\<open>reverted_call_changes_nothing\<close>), and the failing precondition mostly gives its typed
  error (\<open>requestTokens_typed_errors\<close>). The daily limit is where the code departs from
  it: whenever the usage of the day already exceeds maxTokensPerDay, the faucet being
  unpaused and the cooldown passed, the check fails and the payload
  \<^verbatim>\<open>maxTokensPerDay - dailyRequested[user]\<close> of its error underflows, so the claim
  aborts with the arithmetic panic and never with DailyLimitExceeded.
\<close>

theorem requestTokens_panics_over_cap:
  assumes "\<not> entered w" "\<not> paused w" "cooldown_passed w user"
    and "maxTokensPerDay w < usedToday w user"
  shows "requestTokens tk w user = Inl Panic
       \<and> (\<forall>r. requestTokens tk w user \<noteq> Inl (DailyLimitExceeded r))
       \<and> transact (\<lambda>v. requestTokens tk v user) w = (Reverted Panic, w)"
proof -
  have "requestTokens tk w user = Inl Panic"
  proof (cases "overflows (usedToday w user) (tokensPerRequest w)")
    case True
    with assms show ?thesis
      by (intro requestTokens_daily_overflow) (simp_all add: cooldown_passed_def)
  next
    case False
    then have "unat (usedToday w user + tokensPerRequest w)
      = unat (usedToday w user) + unat (tokensPerRequest w)"
      by (simp add: overflows_def unat_add_lem [THEN iffD1])
    with assms(4) have "maxTokensPerDay w < usedToday w user + tokensPerRequest w"
      by (simp add: word_less_nat_alt)
    with assms False show ?thesis
      by (subst requestTokens_daily_limit) (simp_all add: cooldown_passed_def)
  qed
  then show ?thesis by (simp add: transact_def)
qed

theorem requestTokens_panics_over_cap_witness:
  "case constructor faucet boss (pool_of 100 faucet) 0 xfi 10 0 10 of
     Inl e \<Rightarrow> False
   | Inr w0 \<Rightarrow>
      (let w = fst (run std_erc20 w0
                 [Tx alice RequestTokens, Tx boss (UpdateFaucetConfig 10 0 5), Tick 60])
       in \<not> entered w \<and> \<not> paused w \<and> cooldown_passed w alice
        \<and> usedToday w alice = 10 \<and> tokensPerRequest w = 10 \<and> maxTokensPerDay w = 5
        \<and> \<not> within_daily_cap w alice
        \<and> requestTokens std_erc20 w alice = Inl Panic
        \<and> transact (\<lambda>v. requestTokens std_erc20 v alice) w = (Reverted Panic, w))"
  using requestTokens_panics_over_cap
    [of "fst (run std_erc20
           (projr (constructor faucet boss (pool_of 100 faucet) 0 xfi 10 0 10))
           [Tx alice RequestTokens, Tx boss (UpdateFaucetConfig 10 0 5), Tick 60])"
        alice std_erc20]
  by (simp add: faucet_code scenario_code cooldown_passed_def usedToday_def within_daily_cap_def)

text \<open>
  C4. A reachable state: the faucet is deployed with tokensPerRequest = 10 and
  maxTokensPerDay = 10, a user claims, and the owner lowers maxTokensPerDay to 5 with
  updateFaucetConfig. The counter of the user, 10, now exceeds the cap on the current day.
  There requestTokens by that user aborts with the arithmetic panic and not with
  DailyLimitExceeded, while canUserRequest returns (false, "Daily limit exceeded").
\<close>

theorem lowered_cap_panics:
  "case constructor faucet boss (pool_of 100 faucet) 0 xfi 10 0 10 of
     Inl e \<Rightarrow> False
   | Inr w0 \<Rightarrow>
      (case run std_erc20 w0 [Tx alice RequestTokens, Tx boss (UpdateFaucetConfig 10 0 5)] of
        (w, outs) \<Rightarrow>
           outs = [Success [TokensRequested alice 10], Success [FaucetConfigUpdated 10 0 5]]
         \<and> lastRequestDay w alice = timestamp w div one_day
         \<and> dailyRequested w alice = 10 \<and> maxTokensPerDay w = 5
         \<and> maxTokensPerDay w < dailyRequested w alice
         \<and> \<not> paused w \<and> cooldown_passed w alice \<and> pool_funded std_erc20 w
         \<and> \<not> overflows (dailyRequested w alice) (tokensPerRequest w)
         \<and> checked_sub (maxTokensPerDay w) (dailyRequested w alice) = Inl Panic
         \<and> requestTokens std_erc20 w alice = Inl Panic
         \<and> transact (\<lambda>v. requestTokens std_erc20 v alice) w = (Reverted Panic, w)
         \<and> canUserRequest std_erc20 w alice = Inr (False, ''Daily limit exceeded'')
         \<and> getDailyUsage w alice = Inr (10, 0))"
  by (simp add: faucet_code scenario_code cooldown_passed_def pool_funded_def
      getDailyUsage_def)

text \<open>
  C3, as stated, fails: after a claim of 10 under a cap of 10 the owner lowers the cap to
  5, and the counter of the claimant, stored for the current day, is above the cap.
\<close>

theorem daily_cap_invariant_counterexample:
  "constructor faucet boss (pool_of 100 faucet) 0 xfi 10 0 10 = Inr (scenario_start 100 10 0 10)
   \<and> \<not> daily_cap_invariant (fst (run std_erc20 (scenario_start 100 10 0 10)
          [Tx alice RequestTokens, Tx boss (UpdateFaucetConfig 10 0 5)]))"
proof -
  let ?w = "fst (run std_erc20 (scenario_start 100 10 0 10)
          [Tx alice RequestTokens, Tx boss (UpdateFaucetConfig 10 0 5)])"
  have "lastRequestDay ?w alice = timestamp ?w div one_day"
    by (simp add: scenario_start_def faucet_code scenario_code)
  moreover have "\<not> dailyRequested ?w alice \<le> maxTokensPerDay ?w"
    by (simp add: scenario_start_def faucet_code scenario_code)
  ultimately have "\<not> daily_cap_invariant ?w"
    unfolding daily_cap_invariant_def by blast
  moreover have "constructor faucet boss (pool_of 100 faucet) 0 xfi 10 0 10
      = Inr (scenario_start 100 10 0 10)"
    by (simp add: scenario_start_def constructor_def xfi_def)
  ultimately show ?thesis by blast
qed

text \<open>
  C3, amended. In a state reachable from the constructor by any run of the contract's
  operations (with the clock and the token moving in between), the counter of every
  address whose stored day is the current day is at most maxTokensPerDay, except while a
  cap set below such a counter is in force: the invariant fails exactly when the last
  updateFaucetConfig that committed set maxTokensPerDay below the counter of an address
  whose stored day was then the current day, and the day index has not advanced since.
  Calls that revert, updates that keep the cap at or above the counters of the day, and
  every other operation never break it.
\<close>

theorem daily_cap_invariant_exactly:
  assumes "constructor this sender tok now x a b c = Inr w0"
  shows "daily_cap_invariant (fst (run tk w0 sts)) = holds_after_run tk w0 True sts"
proof -
  from assms have "days_in_past w0" "daily_cap_invariant w0"
    by (auto simp: constructor_def days_in_past_def daily_cap_invariant_def split: if_splits)
  with invariant_run [of w0 tk sts] show ?thesis by simp
qed

theorem daily_cap_invariant_exactly_witness:
  "constructor faucet boss (pool_of 100 faucet) 0 xfi 10 0 10 = Inr (scenario_start 100 10 0 10)
   \<and> holds_after_run std_erc20 (scenario_start 100 10 0 10) True
        [Tx alice RequestTokens, Tx boss (UpdateFaucetConfig 10 0 20), Tx alice RequestTokens]
   \<and> daily_cap_invariant (fst (run std_erc20 (scenario_start 100 10 0 10)
        [Tx alice RequestTokens, Tx boss (UpdateFaucetConfig 10 0 20), Tx alice RequestTokens]))
   \<and> holds_after_run std_erc20 (scenario_start 100 10 0 10) True
        [Tx alice RequestTokens, Tx alice (UpdateFaucetConfig 10 0 5),
         Tx boss (UpdateFaucetConfig 0 0 5)]
   \<and> daily_cap_invariant (fst (run std_erc20 (scenario_start 100 10 0 10)
        [Tx alice RequestTokens, Tx alice (UpdateFaucetConfig 10 0 5),
         Tx boss (UpdateFaucetConfig 0 0 5)]))
   \<and> \<not> holds_after_run std_erc20 (scenario_start 100 10 0 10) True
        [Tx alice RequestTokens, Tx boss (UpdateFaucetConfig 10 0 5), Tick 86399]
   \<and> \<not> daily_cap_invariant (fst (run std_erc20 (scenario_start 100 10 0 10)
        [Tx alice RequestTokens, Tx boss (UpdateFaucetConfig 10 0 5), Tick 86399]))
   \<and> holds_after_run std_erc20 (scenario_start 100 10 0 10) True
        [Tx alice RequestTokens, Tx boss (UpdateFaucetConfig 10 0 5), Tick 86400]
   \<and> daily_cap_invariant (fst (run std_erc20 (scenario_start 100 10 0 10)
        [Tx alice RequestTokens, Tx boss (UpdateFaucetConfig 10 0 5), Tick 86400]))
   \<and> constructor faucet boss (pool_of 100 faucet) 0 xfi 10 0 30 = Inr (scenario_start 100 10 0 30)
   \<and> holds_after_run std_erc20 (scenario_start 100 10 0 30) True
        [Tx alice RequestTokens, Tx boss (UpdateFaucetConfig 10 0 15)]
   \<and> daily_cap_invariant (fst (run std_erc20 (scenario_start 100 10 0 30)
        [Tx alice RequestTokens, Tx boss (UpdateFaucetConfig 10 0 15)]))"
  using
    daily_cap_invariant_exactly
      [of faucet boss "pool_of 100 faucet" 0 xfi 10 0 30 "scenario_start 100 10 0 30" std_erc20
          "[Tx alice RequestTokens, Tx boss (UpdateFaucetConfig 10 0 15)]"]
    daily_cap_invariant_exactly
      [of faucet boss "pool_of 100 faucet" 0 xfi 10 0 10 "scenario_start 100 10 0 10" std_erc20
          "[Tx alice RequestTokens, Tx boss (UpdateFaucetConfig 10 0 20), Tx alice RequestTokens]"]
    daily_cap_invariant_exactly
      [of faucet boss "pool_of 100 faucet" 0 xfi 10 0 10 "scenario_start 100 10 0 10" std_erc20
          "[Tx alice RequestTokens, Tx alice (UpdateFaucetConfig 10 0 5),
            Tx boss (UpdateFaucetConfig 0 0 5)]"]
    daily_cap_invariant_exactly
      [of faucet boss "pool_of 100 faucet" 0 xfi 10 0 10 "scenario_start 100 10 0 10" std_erc20
          "[Tx alice RequestTokens, Tx boss (UpdateFaucetConfig 10 0 5), Tick 86399]"]
    daily_cap_invariant_exactly
      [of faucet boss "pool_of 100 faucet" 0 xfi 10 0 10 "scenario_start 100 10 0 10" std_erc20
          "[Tx alice RequestTokens, Tx boss (UpdateFaucetConfig 10 0 5), Tick 86400]"]
  by (simp add: scenario_start_def faucet_code scenario_code cap_covers_today_def)

text \<open>
  C7. In every state reachable from the constructor, totalTokensDistributed is the sum of
  the amounts disbursed by the successful requestTokens calls of the run, totalRequests is
  their number, no step decreases either counter, and getFaucetStats returns the pool
  balance with exactly these stored counters and tokensPerRequest.
\<close>

theorem stats_are_the_claims_so_far:
  assumes "constructor this sender tok now x a b c = Inr w0"
    and "run tk w0 sts = (w, outs)"
  shows "unat (totalTokensDistributed w) = sum_list (map unat (claim_amounts outs))
       \<and> unat (totalRequests w) = length (claim_amounts outs)
       \<and> length (claim_amounts outs) = count_successful_claims sts outs
       \<and> (\<forall>st. totalRequests w \<le> totalRequests (snd (do_step tk w st))
              \<and> totalTokensDistributed w \<le> totalTokensDistributed (snd (do_step tk w st)))
       \<and> getFaucetStats tk w =
           (balanceOf tk (token w) (self_address w), totalRequests w,
            totalTokensDistributed w, tokensPerRequest w)"
proof -
  from assms(1) have "totalTokensDistributed w0 = 0" "totalRequests w0 = 0"
    by (auto simp: constructor_def split: if_splits)
  with stats_run [OF assms(2)] counters_never_decrease [of w tk] show ?thesis
    by (simp add: getFaucetStats_def)
qed

theorem stats_are_the_claims_so_far_witness:
  "constructor faucet boss (pool_of 100 faucet) 0 xfi 10 86400 10 = Inr (scenario_start 100 10 86400 10)
   \<and> (let (w, outs) = run std_erc20 (scenario_start 100 10 86400 10)
          [Tx alice RequestTokens, Tick 100, Tx alice RequestTokens,
           Tx boss (UpdateFaucetConfig 7 86400 10), Tick 86400, Tx alice RequestTokens]
      in claim_amounts outs = [10, 7]
       \<and> unat (totalTokensDistributed w) = sum_list (map unat (claim_amounts outs))
       \<and> totalTokensDistributed w = 17 \<and> totalRequests w = 2
       \<and> getFaucetStats std_erc20 w = (83, 2, 17, 7))"
  using stats_are_the_claims_so_far
    [of faucet boss "pool_of 100 faucet" 0 xfi 10 86400 10 "scenario_start 100 10 86400 10" std_erc20
       "[Tx alice RequestTokens, Tick 100, Tx alice RequestTokens,
           Tx boss (UpdateFaucetConfig 7 86400 10), Tick 86400, Tx alice RequestTokens]"]
  by (simp add: scenario_start_def faucet_code scenario_code claim_amounts_def getFaucetStats_def)

text \<open>
  C2, as stated, fails in the direction from canUserRequest to requestTokens: the view
  tests the four preconditions only. With the pool funded on a ledger that rejects
  transfers, canUserRequest returns (true, "") and requestTokens reverts with
  TransferFailed; with cooldownTime at the largest \<^verbatim>\<open>uint256\<close> and the clock at 1,
  canUserRequest returns (true, "") and requestTokens aborts with the arithmetic panic of
  \<^verbatim>\<open>currentTime + cooldownTime\<close>.
\<close>

theorem canUserRequest_success_counterexample:
  "constructor faucet boss (pool_of 100 faucet) 0 xfi 10 86400 10
     = Inr (scenario_start 100 10 86400 10)
   \<and> canUserRequest std_erc20
        (fst (run std_erc20 (scenario_start 100 10 86400 10)
           [TokenMoves ((pool_of 100 faucet)\<lparr>frozen := True\<rparr>)])) alice = Inr (True, [])
   \<and> requestTokens std_erc20
        (fst (run std_erc20 (scenario_start 100 10 86400 10)
           [TokenMoves ((pool_of 100 faucet)\<lparr>frozen := True\<rparr>)])) alice = Inl TransferFailed
   \<and> constructor faucet boss (pool_of 100 faucet) 0 xfi 10
        115792089237316195423570985008687907853269984665640564039457584007913129639935 10
     = Inr (scenario_start 100 10
        115792089237316195423570985008687907853269984665640564039457584007913129639935 10)
   \<and> canUserRequest std_erc20
        (fst (run std_erc20 (scenario_start 100 10
           115792089237316195423570985008687907853269984665640564039457584007913129639935 10)
           [Tick 1])) alice = Inr (True, [])
   \<and> requestTokens std_erc20
        (fst (run std_erc20 (scenario_start 100 10
           115792089237316195423570985008687907853269984665640564039457584007913129639935 10)
           [Tick 1])) alice = Inl Panic"
  by (simp add: scenario_start_def faucet_code scenario_code)

text \<open>
  C2, amended. In every reachable state, for every address A: canUserRequest(A) returns
  (true, "") exactly when the four preconditions of requestTokens hold (cooldown passed,
  usage of the day after the lazy rollover plus tokensPerRequest within maxTokensPerDay,
  pool balance at least tokensPerRequest, not paused); whenever requestTokens by A
  succeeds, canUserRequest(A) returns (true, ""); when canUserRequest(A) returns
  (true, ""), requestTokens by A succeeds exactly when none of its three additions after
  the checks overflows and the token's transfer returns true; and when canUserRequest(A)
  returns false, its reason is that of the first failing check in the order cooldown,
  daily limit (with lazy rollover), pool balance, pause flag.
\<close>

theorem canUserRequest_mirrors_preconditions:
  assumes "constructor this sender tok now x a b c = Inr w0"
    and "run tk w0 sts = (w, outs)"
  shows "((canUserRequest tk w A = Inr (True, [])) =
            (cooldown_passed w A \<and> within_daily_cap w A \<and> pool_funded tk w \<and> \<not> paused w))
       \<and> ((\<exists>r. requestTokens tk w A = Inr r) \<longrightarrow> canUserRequest tk w A = Inr (True, []))
       \<and> (canUserRequest tk w A = Inr (True, []) \<longrightarrow>
            (\<exists>r. requestTokens tk w A = Inr r) =
              (\<not> overflows (timestamp w) (cooldownTime w)
               \<and> \<not> overflows (totalRequests w) 1
               \<and> \<not> overflows (totalTokensDistributed w) (tokensPerRequest w)
               \<and> (\<exists>tok'. transfer tk (token w) (self_address w) A (tokensPerRequest w)
                     = Some (True, tok'))))
       \<and> (\<forall>reason. canUserRequest tk w A = Inr (False, reason) \<longrightarrow>
            reason = first_failing_reason tk w A \<and> reason \<noteq> [])"
proof -
  from assms(1) have "\<not> entered w0"
    by (auto simp: constructor_def split: if_splits)
  from entered_run [OF this, of tk sts] assms(2) have free: "\<not> entered w" by simp
  note s = requestTokens_succeeds_iff [OF free, of tk A]
  show ?thesis
    unfolding canUserRequest_true_iff s
    using canUserRequest_false_reason [of tk w A] by blast
qed

theorem canUserRequest_mirrors_preconditions_witness:
  "constructor faucet boss (pool_of 100 faucet) 0 xfi 10 86400 10
     = Inr (scenario_start 100 10 86400 10)
   \<and> (let w = fst (run std_erc20 (scenario_start 100 10 86400 10) [Tick 5]) in
        canUserRequest std_erc20 w alice = Inr (True, [])
      \<and> cooldown_passed w alice \<and> within_daily_cap w alice \<and> pool_funded std_erc20 w
      \<and> \<not> paused w
      \<and> (\<exists>r. requestTokens std_erc20 w alice = Inr r))
   \<and> (let w = fst (run std_erc20 (scenario_start 100 10 86400 10)
                 [Tx alice RequestTokens, Tx boss Pause, Tick 5]) in
        canUserRequest std_erc20 w alice = Inr (False, ''Cooldown active'')
      \<and> first_failing_reason std_erc20 w alice = ''Cooldown active'')"
  using canUserRequest_mirrors_preconditions
    [of faucet boss "pool_of 100 faucet" 0 xfi 10 86400 10 "scenario_start 100 10 86400 10"
        std_erc20 "[Tick 5]"
        "fst (run std_erc20 (scenario_start 100 10 86400 10) [Tick 5])"
        "snd (run std_erc20 (scenario_start 100 10 86400 10) [Tick 5])" alice]
    canUserRequest_mirrors_preconditions
    [of faucet boss "pool_of 100 faucet" 0 xfi 10 86400 10 "scenario_start 100 10 86400 10"
        std_erc20 "[Tx alice RequestTokens, Tx boss Pause, Tick 5]"
        "fst (run std_erc20 (scenario_start 100 10 86400 10)
                 [Tx alice RequestTokens, Tx boss Pause, Tick 5])"
        "snd (run std_erc20 (scenario_start 100 10 86400 10)
                 [Tx alice RequestTokens, Tx boss Pause, Tick 5])" alice]
  by (simp add: scenario_start_def faucet_code scenario_code cooldown_passed_def
      within_daily_cap_def pool_funded_def usedToday_def first_failing_reason_def)

end
